theory Spec2Isabelle
  imports Main "HOL-Library.Word" "HOL-Library.Multiset"
begin

unbundle bit_operations_syntax

section \<open>The build flavour and the debug macros\<close>

text \<open>
  The sources use InnoDB's two debug macros, \<^verbatim>\<open>ut_ad(EXPR)\<close> (a debug assertion) and
  \<^verbatim>\<open>ut_d(EXPR)\<close> (a debug statement). Both expand to their argument in a build with
  \<^verbatim>\<open>UNIV_DEBUG\<close> and to nothing otherwise; the header itself switches on
  \<^verbatim>\<open>#ifdef UNIV_DEBUG\<close>. The macros are declared outside the files at hand, so the
  build flavour is a parameter \<open>univ_debug\<close> of every function that uses them.
  A failed assertion aborts the server: it is the one error value of the model.
\<close>

datatype ut_error = Assertion_failure

definition ut_d :: "bool \<Rightarrow> ('s \<Rightarrow> 's) \<Rightarrow> 's \<Rightarrow> 's" where
  "ut_d univ_debug stmt s = (if univ_debug then stmt s else s)"

definition ut_ad :: "bool \<Rightarrow> bool \<Rightarrow> bool" where
  "ut_ad univ_debug expr = (if univ_debug then expr else True)"

section \<open>The mini-transaction, as far as the change buffer uses it\<close>

text \<open>
  Class \<^verbatim>\<open>mtr_t\<close> is declared in \<^verbatim>\<open>mtr0mtr.h\<close>, which is not among the files at hand.
  The code of \<^verbatim>\<open>ibuf0ibuf.ic\<close> touches three things of it: whether the
  mini-transaction has been started or committed, the flag behind
  \<^verbatim>\<open>enter_ibuf()\<close>, \<^verbatim>\<open>exit_ibuf()\<close> and \<^verbatim>\<open>is_inside_ibuf()\<close> (the specification's
  Re-entrancy Marker), and the redo log mode.
\<close>

datatype mtr_state_t = MTR_STATE_INIT | MTR_STATE_ACTIVE | MTR_STATE_COMMITTED

datatype mtr_log_t = MTR_LOG_ALL | MTR_LOG_NONE | MTR_LOG_NO_REDO

record mtr_t =
  m_state :: mtr_state_t
  m_inside_ibuf :: bool
  m_log_mode :: mtr_log_t

text \<open>
  Modelled from the spec: \<^verbatim>\<open>mtr_start\<close> (declared in \<^verbatim>\<open>mtr0mtr.h\<close>) "begins an ordinary
  transactional scope": the scope is active, it is not marked as buffer-internal, and it
  writes redo log (the default log mode, which the read-only branch below downgrades).
\<close>

definition mtr_start :: "mtr_t \<Rightarrow> mtr_t" where
  "mtr_start mtr =
     mtr\<lparr>m_state := MTR_STATE_ACTIVE, m_inside_ibuf := False, m_log_mode := MTR_LOG_ALL\<rparr>"

text \<open>
  Modelled from the spec: \<^verbatim>\<open>mtr_commit\<close> (declared in \<^verbatim>\<open>mtr0mtr.h\<close>) "commits the
  underlying scope normally". The specification has the marker "asserted clear on scope
  exit", not cleared by it: the commit leaves the flag as it finds it.
\<close>

definition mtr_commit :: "mtr_t \<Rightarrow> mtr_t" where
  "mtr_commit mtr = mtr\<lparr>m_state := MTR_STATE_COMMITTED\<rparr>"

text \<open>
  Modelled from the spec: the three members of \<^verbatim>\<open>mtr_t\<close> around the Re-entrancy Marker,
  "a per-scope boolean carried by each active mini-transaction", and the "redo-mode
  toggle" \<^verbatim>\<open>mtr_set_log_mode\<close>.
\<close>

definition enter_ibuf :: "mtr_t \<Rightarrow> mtr_t" where
  "enter_ibuf mtr = mtr\<lparr>m_inside_ibuf := True\<rparr>"

definition exit_ibuf :: "mtr_t \<Rightarrow> mtr_t" where
  "exit_ibuf mtr = mtr\<lparr>m_inside_ibuf := False\<rparr>"

definition is_inside_ibuf :: "mtr_t \<Rightarrow> bool" where
  "is_inside_ibuf mtr = m_inside_ibuf mtr"

definition mtr_set_log_mode :: "mtr_t \<Rightarrow> mtr_log_t \<Rightarrow> mtr_t" where
  "mtr_set_log_mode mtr mode = mtr\<lparr>m_log_mode := mode\<rparr>"

section \<open>The mini-transaction guard of \<^verbatim>\<open>ibuf0ibuf.ic\<close>\<close>

text \<open>
  \<^verbatim>\<open>ibuf_mtr_start\<close>: \<^verbatim>\<open>mtr_start(mtr); mtr->enter_ibuf();
  if (high_level_read_only || srv_read_only_mode) mtr_set_log_mode(mtr, MTR_LOG_NO_REDO);\<close>
  The two server globals are arguments.
\<close>

definition ibuf_mtr_start :: "bool \<Rightarrow> bool \<Rightarrow> mtr_t \<Rightarrow> mtr_t" where
  "ibuf_mtr_start high_level_read_only srv_read_only_mode mtr =
     (let mtr1 = mtr_start mtr;
          mtr2 = enter_ibuf mtr1
      in if high_level_read_only \<or> srv_read_only_mode
         then mtr_set_log_mode mtr2 MTR_LOG_NO_REDO
         else mtr2)"

text \<open>
  \<^verbatim>\<open>ibuf_mtr_commit\<close>: \<^verbatim>\<open>ut_ad(mtr->is_inside_ibuf()); ut_d(mtr->exit_ibuf());
  mtr_commit(mtr);\<close> The assertion and the clearing of the flag are both debug code.
\<close>

definition ibuf_mtr_commit :: "bool \<Rightarrow> mtr_t \<Rightarrow> ut_error + mtr_t" where
  "ibuf_mtr_commit univ_debug mtr =
     (if \<not> ut_ad univ_debug (is_inside_ibuf mtr) then Inl Assertion_failure
      else Inr (mtr_commit (ut_d univ_debug exit_ibuf mtr)))"

text \<open>
  \<^verbatim>\<open>ibuf_inside\<close>: \<^verbatim>\<open>return(mtr->is_inside_ibuf());\<close> on a \<^verbatim>\<open>const mtr_t*\<close>. The
  \<^verbatim>\<open>ibool\<close> it returns is read as a truth value.
\<close>

definition ibuf_inside :: "mtr_t \<Rightarrow> bool" where
  "ibuf_inside mtr = is_inside_ibuf mtr"

text \<open>
  What a caller can do to a scope between \<^verbatim>\<open>ibuf_mtr_start\<close> and \<^verbatim>\<open>ibuf_mtr_commit\<close>
  through the interface modelled here: ask \<^verbatim>\<open>ibuf_inside\<close>, or toggle the redo mode.
\<close>

datatype scope_call = Call_ibuf_inside | Call_mtr_set_log_mode mtr_log_t

fun scope_step :: "mtr_t \<Rightarrow> scope_call \<Rightarrow> mtr_t" where
  "scope_step mtr Call_ibuf_inside = mtr"
| "scope_step mtr (Call_mtr_set_log_mode mode) = mtr_set_log_mode mtr mode"

section \<open>Page addresses: \<^verbatim>\<open>ibuf_bitmap_page\<close> of \<^verbatim>\<open>ibuf0ibuf.h\<close>\<close>

text \<open>
  \<^verbatim>\<open>ulint\<close> is the machine word of a 64-bit build and a page number is a
  \<^verbatim>\<open>uint32_t\<close>. A page identifier is the pair of a tablespace id and a page number
  (class \<^verbatim>\<open>page_id_t\<close> is declared outside the files at hand; the code reads it through
  \<^verbatim>\<open>page_no()\<close> only).
\<close>

type_synonym ulint = "64 word"

record page_id_t =
  space :: "32 word"
  page_no :: "32 word"

text \<open>
  Modelled from the spec: the macro \<^verbatim>\<open>ut_is_2pow\<close> is declared outside the files at hand.
  The header asserts it of \<^verbatim>\<open>zip_size\<close>, which is a "ROW_FORMAT=COMPRESSED page size,
  or 0", and the specification calls the precondition "a power of two": the usual bit test,
  which accepts 0 as well.
\<close>

definition ut_is_2pow :: "ulint \<Rightarrow> bool" where
  "ut_is_2pow n = (n AND (n - 1) = 0)"

text \<open>
  \<^verbatim>\<open>ut_ad(ut_is_2pow(zip_size)); ulint size = zip_size ? zip_size : srv_page_size;
  return (page_id.page_no() & (size - 1)) == FSP_IBUF_BITMAP_OFFSET;\<close>
  The server global \<^verbatim>\<open>srv_page_size\<close> and the constant \<^verbatim>\<open>FSP_IBUF_BITMAP_OFFSET\<close>
  (of \<^verbatim>\<open>fsp0types.h\<close>) are arguments. The page number is widened to \<^verbatim>\<open>ulint\<close> by the
  usual arithmetic conversion.
\<close>

definition ibuf_bitmap_page ::
  "bool \<Rightarrow> ulint \<Rightarrow> ulint \<Rightarrow> page_id_t \<Rightarrow> ulint \<Rightarrow> ut_error + bool" where
  "ibuf_bitmap_page univ_debug srv_page_size FSP_IBUF_BITMAP_OFFSET page_id zip_size =
     (if \<not> ut_ad univ_debug (ut_is_2pow zip_size) then Inl Assertion_failure
      else let size = (if zip_size \<noteq> 0 then zip_size else srv_page_size)
           in Inr (ucast (page_no page_id) AND (size - 1) = FSP_IBUF_BITMAP_OFFSET))"

section \<open>The merge of buffered operations\<close>

text \<open>
  The operation kinds and their stored values are the \<^verbatim>\<open>enum\<close> of \<^verbatim>\<open>ibuf0ibuf.h\<close>:
  \<^verbatim>\<open>IBUF_OP_INSERT = 0\<close>, \<^verbatim>\<open>IBUF_OP_DELETE_MARK = 1\<close>, \<^verbatim>\<open>IBUF_OP_DELETE = 2\<close>, and the
  number of kinds \<^verbatim>\<open>IBUF_OP_COUNT = 3\<close>.
\<close>

datatype ibuf_op_t = IBUF_OP_INSERT | IBUF_OP_DELETE_MARK | IBUF_OP_DELETE

definition IBUF_OP_COUNT :: nat where
  "IBUF_OP_COUNT = 3"

fun ibuf_op_code :: "ibuf_op_t \<Rightarrow> nat" where
  "ibuf_op_code IBUF_OP_INSERT = 0"
| "ibuf_op_code IBUF_OP_DELETE_MARK = 1"
| "ibuf_op_code IBUF_OP_DELETE = 2"

text \<open>
  Modelled from the spec: the decoding of a stored operation kind (the record codec is in
  \<^verbatim>\<open>ibuf0ibuf.cc\<close>, which is not among the files at hand). A stored value that is none
  of the \<^verbatim>\<open>enum\<close>'s three is "unrecognized".
\<close>

definition ibuf_op_decode :: "nat \<Rightarrow> ibuf_op_t option" where
  "ibuf_op_decode c =
     (if c = ibuf_op_code IBUF_OP_INSERT then Some IBUF_OP_INSERT
      else if c = ibuf_op_code IBUF_OP_DELETE_MARK then Some IBUF_OP_DELETE_MARK
      else if c = ibuf_op_code IBUF_OP_DELETE then Some IBUF_OP_DELETE
      else None)"

text \<open>
  Modelled from the spec: the error codes \<^verbatim>\<open>dberr_t\<close> that the merge returns (the type is
  declared outside the files at hand): success, or "a \<^verbatim>\<open>Corruption\<close> condition".
\<close>

datatype dberr_t = DB_SUCCESS | DB_CORRUPTION

text \<open>
  Modelled from the spec: a Buffered Record, "one entry per buffered operation: page
  identifier, secondary-index key image, operation kind, and a small ordering counter".
  The kind is kept as stored; the counter is the two bytes that
  \<^verbatim>\<open>ibuf_rec_get_counter\<close> reads. The buffer's own index is the list of its records in
  physical order.
\<close>

record 'key ibuf_rec =
  rec_page_id :: page_id_t
  rec_key :: 'key
  rec_op :: nat
  rec_counter :: "16 word"

text \<open>
  Modelled from the spec: how one operation changes an index page is the work of the
  page and record layer, an external collaborator. It is a parameter: given the kind and
  the key image it returns the changed page, or nothing when the entry's "target position
  is inconsistent with the page's current structure".
\<close>

type_synonym ('key, 'page) ibuf_applier = "ibuf_op_t \<Rightarrow> 'key \<Rightarrow> 'page \<Rightarrow> 'page option"

text \<open>
  Modelled from the spec: applying one decoded entry (part of
  \<^verbatim>\<open>ibuf_merge_or_delete_for_page\<close> in \<^verbatim>\<open>ibuf0ibuf.cc\<close>). It fails "if a decoded entry's
  operation kind is unrecognized or its target position is inconsistent".
\<close>

definition ibuf_apply_entry ::
  "('key, 'page) ibuf_applier \<Rightarrow> 'key ibuf_rec \<Rightarrow> 'page \<Rightarrow> 'page option" where
  "ibuf_apply_entry ap e page =
     (case ibuf_op_decode (rec_op e) of
        None \<Rightarrow> None
      | Some op \<Rightarrow> ap op (rec_key e) page)"

text \<open>
  Modelled from the spec: the lookup of \<^verbatim>\<open>ibuf_merge_or_delete_for_page\<close>
  (\<^verbatim>\<open>ibuf0ibuf.cc\<close>), "all buffered entries for \<^verbatim>\<open>page_id\<close> (ordered by the record's
  ordering counter, which reflects original buffering order)".
\<close>

definition ibuf_page_entries :: "page_id_t \<Rightarrow> 'key ibuf_rec list \<Rightarrow> 'key ibuf_rec list" where
  "ibuf_page_entries page_id tree =
     sort_key rec_counter (filter (\<lambda>e. rec_page_id e = page_id) tree)"

text \<open>
  Modelled from the spec: \<^verbatim>\<open>ibuf_page_exists\<close> (declared in the header, defined in
  \<^verbatim>\<open>ibuf0ibuf.cc\<close>), "true iff the buffer's own index currently holds one or more entries
  for this page".
\<close>

definition ibuf_page_exists :: "page_id_t \<Rightarrow> ulint \<Rightarrow> 'key ibuf_rec list \<Rightarrow> bool" where
  "ibuf_page_exists page_id zip_size tree =
     (filter (\<lambda>e. rec_page_id e = page_id) tree \<noteq> [])"

text \<open>
  Modelled from the spec: the loop of \<^verbatim>\<open>ibuf_merge_or_delete_for_page\<close>
  (\<^verbatim>\<open>ibuf0ibuf.cc\<close>): "apply them to the page in that order using the three operation
  kinds; after each successful apply, remove that entry from the buffer's own index". A
  failure "on a single entry" aborts "that merge call" and is reported as corruption; the
  entry that failed and the ones after it stay in the index ("rather than silently losing
  buffered data").
\<close>

fun ibuf_merge_entries ::
  "('key, 'page) ibuf_applier \<Rightarrow> 'key ibuf_rec list \<Rightarrow> 'page \<Rightarrow> 'key ibuf_rec list
     \<Rightarrow> dberr_t \<times> 'page \<times> 'key ibuf_rec list" where
  "ibuf_merge_entries ap [] page tree = (DB_SUCCESS, page, tree)"
| "ibuf_merge_entries ap (e # es) page tree =
     (case ibuf_apply_entry ap e page of
        None \<Rightarrow> (DB_CORRUPTION, page, tree)
      | Some page' \<Rightarrow> ibuf_merge_entries ap es page' (remove1 e tree))"

text \<open>
  Modelled from the spec: \<^verbatim>\<open>ibuf_merge_or_delete_for_page\<close> (declared in the header,
  defined in \<^verbatim>\<open>ibuf0ibuf.cc\<close>). With a page it merges; with no page it discards "all
  buffered entries for \<^verbatim>\<open>page_id\<close> without applying them". It returns the error code,
  the page and the buffer's index. The page size only selects the bitmap page, which the
  specification's account of the merge does not involve.
\<close>

definition ibuf_merge_or_delete_for_page ::
  "('key, 'page) ibuf_applier \<Rightarrow> 'page option \<Rightarrow> page_id_t \<Rightarrow> ulint \<Rightarrow> 'key ibuf_rec list
     \<Rightarrow> dberr_t \<times> 'page option \<times> 'key ibuf_rec list" where
  "ibuf_merge_or_delete_for_page ap block page_id zip_size tree =
     (case block of
        None \<Rightarrow> (DB_SUCCESS, None, filter (\<lambda>e. rec_page_id e \<noteq> page_id) tree)
      | Some page \<Rightarrow>
          (case ibuf_merge_entries ap (ibuf_page_entries page_id tree) page tree of
             (err, page', tree') \<Rightarrow> (err, Some page', tree')))"

text \<open>
  The reference the merge is compared with: applying a list of entries to a page one
  after the other, in the order of the list, with no result as soon as one fails.
\<close>

fun ibuf_apply_all ::
  "('key, 'page) ibuf_applier \<Rightarrow> 'key ibuf_rec list \<Rightarrow> 'page \<Rightarrow> 'page option" where
  "ibuf_apply_all ap [] page = Some page"
| "ibuf_apply_all ap (e # es) page =
     (case ibuf_apply_entry ap e page of
        None \<Rightarrow> None
      | Some page' \<Rightarrow> ibuf_apply_all ap es page')"

subsection \<open>Sample data\<close>

text \<open>
  A page that records the operations applied to it, in order, and the entries of the
  specification's ordering test: three entries for page (7, 42) with the counters 1, 2, 3,
  one entry for another page, and one entry for page (7, 42) whose stored operation kind
  is \<^verbatim>\<open>IBUF_OP_COUNT\<close>, none of the three.
\<close>

definition log_apply :: "(nat, (ibuf_op_t \<times> nat) list) ibuf_applier" where
  "log_apply op k page = Some (page @ [(op, k)])"

abbreviation page_7_42 :: page_id_t where
  "page_7_42 \<equiv> \<lparr>space = 7, page_no = 42\<rparr>"

abbreviation page_7_43 :: page_id_t where
  "page_7_43 \<equiv> \<lparr>space = 7, page_no = 43\<rparr>"

abbreviation entry_1 :: "nat ibuf_rec" where
  "entry_1 \<equiv> \<lparr>rec_page_id = page_7_42, rec_key = 10, rec_op = 0, rec_counter = 1\<rparr>"

abbreviation entry_2 :: "nat ibuf_rec" where
  "entry_2 \<equiv> \<lparr>rec_page_id = page_7_42, rec_key = 20, rec_op = 1, rec_counter = 2\<rparr>"

abbreviation entry_3 :: "nat ibuf_rec" where
  "entry_3 \<equiv> \<lparr>rec_page_id = page_7_42, rec_key = 30, rec_op = 2, rec_counter = 3\<rparr>"

abbreviation entry_other :: "nat ibuf_rec" where
  "entry_other \<equiv> \<lparr>rec_page_id = page_7_43, rec_key = 40, rec_op = 0, rec_counter = 1\<rparr>"

abbreviation entry_bad :: "nat ibuf_rec" where
  "entry_bad \<equiv> \<lparr>rec_page_id = page_7_42, rec_key = 50, rec_op = 3, rec_counter = 2\<rparr>"

section \<open>Properties of the guard\<close>

lemmas guard_defs =
  ibuf_mtr_start_def ibuf_mtr_commit_def ibuf_inside_def mtr_start_def mtr_commit_def
  enter_ibuf_def exit_ibuf_def is_inside_ibuf_def mtr_set_log_mode_def ut_d_def ut_ad_def

lemma scope_step_marker: "m_inside_ibuf (scope_step mtr c) = m_inside_ibuf mtr"
  by (cases c) (simp_all add: mtr_set_log_mode_def)

lemma scope_steps_marker: "m_inside_ibuf (foldl scope_step mtr cs) = m_inside_ibuf mtr"
  by (induction cs arbitrary: mtr) (simp_all add: scope_step_marker)

text \<open>
  C6. \<^verbatim>\<open>ibuf_mtr_start\<close> starts an ordinary mini-transaction, then sets the Re-entrancy
  Marker on it, and in read-only or high-level read-only mode it also switches the
  scope's log mode to \<^verbatim>\<open>MTR_LOG_NO_REDO\<close>: the result is the started scope with the marker
  set, and with the log mode replaced exactly when one of the two modes is on.
\<close>

theorem ibuf_mtr_start_effect:
  "ibuf_mtr_start high_level_read_only srv_read_only_mode mtr =
     (if high_level_read_only \<or> srv_read_only_mode
      then mtr_set_log_mode (enter_ibuf (mtr_start mtr)) MTR_LOG_NO_REDO
      else enter_ibuf (mtr_start mtr))
   \<and> m_state (ibuf_mtr_start high_level_read_only srv_read_only_mode mtr) = MTR_STATE_ACTIVE
   \<and> m_inside_ibuf (ibuf_mtr_start high_level_read_only srv_read_only_mode mtr)
   \<and> (high_level_read_only \<or> srv_read_only_mode \<longrightarrow>
        m_log_mode (ibuf_mtr_start high_level_read_only srv_read_only_mode mtr)
          = MTR_LOG_NO_REDO)"
  by (simp add: guard_defs Let_def)

theorem ibuf_mtr_start_effect_witness:
  "m_state (ibuf_mtr_start False True
      \<lparr>m_state = MTR_STATE_INIT, m_inside_ibuf = False, m_log_mode = MTR_LOG_ALL\<rparr>)
     = MTR_STATE_ACTIVE
   \<and> m_inside_ibuf (ibuf_mtr_start False True
      \<lparr>m_state = MTR_STATE_INIT, m_inside_ibuf = False, m_log_mode = MTR_LOG_ALL\<rparr>)
   \<and> m_log_mode (ibuf_mtr_start False True
      \<lparr>m_state = MTR_STATE_INIT, m_inside_ibuf = False, m_log_mode = MTR_LOG_ALL\<rparr>)
     = MTR_LOG_NO_REDO"
  using ibuf_mtr_start_effect [of False True
      "\<lparr>m_state = MTR_STATE_INIT, m_inside_ibuf = False, m_log_mode = MTR_LOG_ALL\<rparr>",
      THEN conjunct2]
  by simp

text \<open>
  C10. When the engine is in neither read-only mode nor high-level read-only mode,
  \<^verbatim>\<open>ibuf_mtr_start\<close> leaves the log mode at what \<^verbatim>\<open>mtr_start\<close> established: the result
  is the started scope with the Re-entrancy Marker set, and nothing else changed.
\<close>

theorem ibuf_mtr_start_keeps_log_mode:
  "\<not> high_level_read_only \<Longrightarrow> \<not> srv_read_only_mode \<Longrightarrow>
     ibuf_mtr_start high_level_read_only srv_read_only_mode mtr = enter_ibuf (mtr_start mtr)
   \<and> ibuf_mtr_start high_level_read_only srv_read_only_mode mtr
       = (mtr_start mtr)\<lparr>m_inside_ibuf := True\<rparr>
   \<and> m_log_mode (ibuf_mtr_start high_level_read_only srv_read_only_mode mtr)
       = m_log_mode (mtr_start mtr)
   \<and> m_state (ibuf_mtr_start high_level_read_only srv_read_only_mode mtr)
       = m_state (mtr_start mtr)"
  by (simp add: guard_defs Let_def)

theorem ibuf_mtr_start_keeps_log_mode_witness:
  "ibuf_mtr_start False False
      \<lparr>m_state = MTR_STATE_COMMITTED, m_inside_ibuf = False, m_log_mode = MTR_LOG_NO_REDO\<rparr>
     = \<lparr>m_state = MTR_STATE_ACTIVE, m_inside_ibuf = True, m_log_mode = MTR_LOG_ALL\<rparr>
   \<and> m_log_mode (mtr_start
      \<lparr>m_state = MTR_STATE_COMMITTED, m_inside_ibuf = False, m_log_mode = MTR_LOG_NO_REDO\<rparr>)
     = MTR_LOG_ALL"
  using ibuf_mtr_start_keeps_log_mode [of False False
      "\<lparr>m_state = MTR_STATE_COMMITTED, m_inside_ibuf = False, m_log_mode = MTR_LOG_NO_REDO\<rparr>"]
  by (simp add: mtr_start_def enter_ibuf_def)

text \<open>
  C7. \<^verbatim>\<open>ibuf_inside\<close> is a query (it returns no scope) that is true exactly when the
  Re-entrancy Marker of the scope is set. On a scope that \<^verbatim>\<open>ibuf_mtr_start\<close> has started,
  it is true at once and stays true over every sequence of calls made on the scope before
  \<^verbatim>\<open>ibuf_mtr_commit\<close>.
\<close>

theorem ibuf_inside_iff_marker:
  "ibuf_inside mtr = m_inside_ibuf mtr
   \<and> ibuf_inside (ibuf_mtr_start high_level_read_only srv_read_only_mode mtr)
   \<and> ibuf_inside (foldl scope_step
         (ibuf_mtr_start high_level_read_only srv_read_only_mode mtr) calls)"
  by (simp add: ibuf_inside_def is_inside_ibuf_def scope_steps_marker)
     (simp add: guard_defs Let_def)

theorem ibuf_inside_iff_marker_witness:
  "\<not> ibuf_inside \<lparr>m_state = MTR_STATE_INIT, m_inside_ibuf = False, m_log_mode = MTR_LOG_ALL\<rparr>
   \<and> ibuf_inside (foldl scope_step
         (ibuf_mtr_start False False
            \<lparr>m_state = MTR_STATE_INIT, m_inside_ibuf = False, m_log_mode = MTR_LOG_ALL\<rparr>)
         [Call_ibuf_inside, Call_mtr_set_log_mode MTR_LOG_NONE, Call_ibuf_inside])"
  using ibuf_inside_iff_marker [of
      "\<lparr>m_state = MTR_STATE_INIT, m_inside_ibuf = False, m_log_mode = MTR_LOG_ALL\<rparr>"
      False False "[Call_ibuf_inside, Call_mtr_set_log_mode MTR_LOG_NONE, Call_ibuf_inside]"]
  by simp

text \<open>
  C4, as the code has it. In a debug build \<^verbatim>\<open>ibuf_mtr_commit\<close> asserts that the
  Re-entrancy Marker is set, clears it and commits the mini-transaction, so that the
  committed scope no longer carries the marker. In a build without \<^verbatim>\<open>UNIV_DEBUG\<close> neither
  the assertion nor the clearing is compiled: the function only commits, and the marker
  is what it was.
\<close>

theorem ibuf_mtr_commit_by_build:
  "ibuf_mtr_commit True mtr =
     (if m_inside_ibuf mtr then Inr (mtr_commit (exit_ibuf mtr)) else Inl Assertion_failure)
   \<and> \<not> m_inside_ibuf (mtr_commit (exit_ibuf mtr))
   \<and> m_state (mtr_commit (exit_ibuf mtr)) = MTR_STATE_COMMITTED
   \<and> ibuf_mtr_commit False mtr = Inr (mtr_commit mtr)
   \<and> m_inside_ibuf (mtr_commit mtr) = m_inside_ibuf mtr
   \<and> m_state (mtr_commit mtr) = MTR_STATE_COMMITTED"
  by (simp add: guard_defs)

theorem ibuf_mtr_commit_by_build_witness:
  "ibuf_mtr_commit True
      \<lparr>m_state = MTR_STATE_ACTIVE, m_inside_ibuf = True, m_log_mode = MTR_LOG_ALL\<rparr>
     = Inr \<lparr>m_state = MTR_STATE_COMMITTED, m_inside_ibuf = False, m_log_mode = MTR_LOG_ALL\<rparr>"
  using ibuf_mtr_commit_by_build [of
      "\<lparr>m_state = MTR_STATE_ACTIVE, m_inside_ibuf = True, m_log_mode = MTR_LOG_ALL\<rparr>"]
  by (simp add: mtr_commit_def exit_ibuf_def)

text \<open>
  The claim C4 as it is written fails in a build without \<^verbatim>\<open>UNIV_DEBUG\<close>: a scope started
  by \<^verbatim>\<open>ibuf_mtr_start\<close> and committed by \<^verbatim>\<open>ibuf_mtr_commit\<close> still carries the marker.
\<close>

theorem ibuf_mtr_commit_release_keeps_marker:
  "ibuf_mtr_commit False (ibuf_mtr_start False False
      \<lparr>m_state = MTR_STATE_INIT, m_inside_ibuf = False, m_log_mode = MTR_LOG_ALL\<rparr>)
    = Inr \<lparr>m_state = MTR_STATE_COMMITTED, m_inside_ibuf = True, m_log_mode = MTR_LOG_ALL\<rparr>"
  by (simp add: guard_defs Let_def)

section \<open>Properties of \<^verbatim>\<open>ibuf_bitmap_page\<close>\<close>

lemma ut_is_2pow_zero: "ut_is_2pow 0"
  by (simp add: ut_is_2pow_def)

lemma ut_is_2pow_exp: "ut_is_2pow (2 ^ k)"
proof -
  have "(2 ^ k :: ulint) - 1 = mask k"
    by (simp add: mask_eq_decr_exp)
  moreover have "(2 ^ k :: ulint) AND mask k = 0"
    by (rule bit_eqI) (auto simp add: bit_simps)
  ultimately show ?thesis
    by (simp add: ut_is_2pow_def)
qed

lemma unat_and_mask_mod: "unat ((w :: ulint) AND mask k) = unat w mod 2 ^ k"
proof -
  have "unat (w AND mask k) = unat (take_bit k w)"
    by (simp only: take_bit_eq_mask)
  also have "\<dots> = take_bit k (unat w)"
    by (simp only: unsigned_take_bit_eq)
  also have "\<dots> = unat w mod 2 ^ k"
    by (simp only: take_bit_eq_mod)
  finally show ?thesis .
qed

lemma unat_ucast_page_no: "unat (ucast (p :: 32 word) :: ulint) = unat p"
proof -
  have "unat p < 2 ^ 32"
    using unsigned_less [of p] by simp
  then have "unat p < 2 ^ 64"
    by simp
  then show ?thesis
    by (simp add: unsigned_ucast_eq take_bit_nat_eq_self)
qed

lemma unat_exp_ulint: "k < 64 \<Longrightarrow> unat (2 ^ k :: ulint) = 2 ^ k"
proof -
  assume k: "k < 64"
  have "(2 ^ k :: ulint) = of_nat (2 ^ k)"
    by simp
  then have "unat (2 ^ k :: ulint) = take_bit 64 ((2::nat) ^ k)"
    by (simp only: unsigned_of_nat) simp
  also have "\<dots> = 2 ^ k"
    using k by (simp add: take_bit_nat_eq_self)
  finally show ?thesis .
qed

lemma page_no_and_eq_iff:
  fixes p :: "32 word" and off :: ulint
  shows "((ucast p :: ulint) AND (2 ^ k - 1) = off) = (unat p mod 2 ^ k = unat off)"
proof -
  have "(2 ^ k :: ulint) - 1 = mask k"
    by (simp add: mask_eq_decr_exp)
  then have "unat ((ucast p :: ulint) AND (2 ^ k - 1)) = unat p mod 2 ^ k"
    by (simp add: unat_and_mask_mod unat_ucast_page_no)
  then show ?thesis
    by (metis word_unat_eq_iff)
qed

text \<open>
  C5. For every page identifier and every physical page size that is a power of two
  (\<^verbatim>\<open>zip_size\<close> when it is not 0, the default \<^verbatim>\<open>srv_page_size\<close> when it is), in either
  build, \<^verbatim>\<open>ibuf_bitmap_page\<close> returns a truth value, and it is true exactly when the page
  number modulo the physical page size is the bitmap page offset. The function reads
  its arguments and the page size only.
\<close>

theorem ibuf_bitmap_page_iff_mod:
  assumes "psize = (if zip_size \<noteq> 0 then zip_size else srv_page_size)"
    and "psize = 2 ^ k" and "k < 64"
  shows "ibuf_bitmap_page univ_debug srv_page_size FSP_IBUF_BITMAP_OFFSET page_id zip_size
    = Inr (unat (page_no page_id) mod unat psize = unat FSP_IBUF_BITMAP_OFFSET)"
proof -
  have "ut_is_2pow zip_size"
  proof (cases "zip_size = 0")
    case True
    then show ?thesis by (simp add: ut_is_2pow_zero)
  next
    case False
    with assms(1,2) have "zip_size = 2 ^ k" by simp
    then show ?thesis by (simp only: ut_is_2pow_exp)
  qed
  then have "ibuf_bitmap_page univ_debug srv_page_size FSP_IBUF_BITMAP_OFFSET page_id zip_size
    = Inr (ucast (page_no page_id) AND (psize - 1) = FSP_IBUF_BITMAP_OFFSET)"
    using assms(1) by (simp add: ibuf_bitmap_page_def ut_ad_def)
  then show ?thesis
    using assms(2,3) by (simp add: page_no_and_eq_iff unat_exp_ulint)
qed

theorem ibuf_bitmap_page_iff_mod_witness:
  "ibuf_bitmap_page True 16384 1 \<lparr>space = 7, page_no = 16385\<rparr> 0 = Inr True
   \<and> ibuf_bitmap_page True 16384 1 \<lparr>space = 7, page_no = 42\<rparr> 4096 = Inr False"
proof -
  have a: "(16384 :: ulint) = 2 ^ 14" and b: "(4096 :: ulint) = 2 ^ 12"
    by simp_all
  have "ibuf_bitmap_page True 16384 1 \<lparr>space = 7, page_no = 16385\<rparr> 0
      = Inr (unat (page_no \<lparr>space = 7, page_no = 16385\<rparr>) mod unat (16384 :: ulint)
             = unat (1 :: ulint))"
    by (rule ibuf_bitmap_page_iff_mod [where k = 14]) (simp_all only: a, simp_all)
  moreover have "ibuf_bitmap_page True 16384 1 \<lparr>space = 7, page_no = 42\<rparr> 4096
      = Inr (unat (page_no \<lparr>space = 7, page_no = 42\<rparr>) mod unat (4096 :: ulint)
             = unat (1 :: ulint))"
    by (rule ibuf_bitmap_page_iff_mod [where k = 12]) (simp_all only: b, simp_all)
  ultimately show ?thesis
    by simp
qed

section \<open>Properties of the merge\<close>

lemma ibuf_op_decode_code: "ibuf_op_decode (ibuf_op_code op) = Some op"
  by (cases op) (simp_all add: ibuf_op_decode_def)

lemma ibuf_op_decode_unrecognized: "(ibuf_op_decode c = None) = (IBUF_OP_COUNT \<le> c)"
  by (auto simp add: ibuf_op_decode_def IBUF_OP_COUNT_def)

lemma sort_key_remove1_head:
  assumes "sort_key f xs = e # es"
  shows "sort_key f (remove1 e xs) = es"
proof (rule properties_for_sort_key)
  have m: "mset xs = mset (e # es)"
    using assms by (metis mset_sort)
  then show "mset es = mset (remove1 e xs)"
    by simp
  have s: "sorted (map f (e # es))"
    using assms by (metis sorted_sort_key)
  then show "sorted (map f es)"
    by simp
  fix k assume k: "k \<in> set es"
  have st: "filter (\<lambda>x. f k = f x) (e # es) = filter (\<lambda>x. f k = f x) xs"
    using sort_key_stable [of f "f k" xs] assms
    by (simp add: eq_commute [of "f k"])
  show "filter (\<lambda>x. f k = f x) es = filter (\<lambda>x. f k = f x) (remove1 e xs)"
  proof (cases "f k = f e")
    case True
    with st have "filter (\<lambda>x. f k = f x) xs = e # filter (\<lambda>x. f k = f x) es"
      by simp
    then show ?thesis
      by (simp add: filter_remove1)
  next
    case False
    with st have a: "filter (\<lambda>x. f k = f x) xs = filter (\<lambda>x. f k = f x) es"
      by simp
    from False have "e \<notin> set (filter (\<lambda>x. f k = f x) xs)"
      by simp
    then have "remove1 e (filter (\<lambda>x. f k = f x) xs) = filter (\<lambda>x. f k = f x) xs"
      by (rule remove1_idem)
    with a show ?thesis
      by (simp add: filter_remove1)
  qed
qed

lemma ibuf_page_entries_remove1:
  "ibuf_page_entries pid tree = e # es \<Longrightarrow> ibuf_page_entries pid (remove1 e tree) = es"
  unfolding ibuf_page_entries_def
  by (simp add: filter_remove1 sort_key_remove1_head)

lemma ibuf_merge_entries_idem:
  "ibuf_page_entries pid tree = es \<Longrightarrow>
   ibuf_merge_entries ap es page tree = (err, pg, tree') \<Longrightarrow>
     ibuf_merge_entries ap (ibuf_page_entries pid tree') pg tree' = (err, pg, tree')
     \<and> (err = DB_SUCCESS \<longrightarrow> ibuf_page_entries pid tree' = [])"
proof (induction es arbitrary: page tree)
  case Nil
  then show ?case by simp
next
  case (Cons e es)
  show ?case
  proof (cases "ibuf_apply_entry ap e page")
    case None
    with Cons.prems show ?thesis by auto
  next
    case (Some page')
    with Cons.prems(2) have r: "ibuf_merge_entries ap es page' (remove1 e tree) = (err, pg, tree')"
      by simp
    from Cons.prems(1) have "ibuf_page_entries pid (remove1 e tree) = es"
      by (rule ibuf_page_entries_remove1)
    from Cons.IH [OF this r] show ?thesis .
  qed
qed

lemma page_entries_Nil_iff:
  "(ibuf_page_entries pid tree = []) = (filter (\<lambda>e. rec_page_id e = pid) tree = [])"
  unfolding ibuf_page_entries_def
  by (metis mset_sort mset_zero_iff)

lemma ibuf_merge_entries_prefix:
  "\<exists>n pg. n \<le> length es
      \<and> ibuf_apply_all ap (take n es) page = Some pg
      \<and> (n < length es \<longrightarrow> ibuf_apply_entry ap (es ! n) pg = None)
      \<and> ibuf_merge_entries ap es page tree
          = (if n = length es then DB_SUCCESS else DB_CORRUPTION, pg,
             fold remove1 (take n es) tree)"
proof (induction es arbitrary: page tree)
  case Nil
  then show ?case by simp
next
  case (Cons e es)
  show ?case
  proof (cases "ibuf_apply_entry ap e page")
    case None
    then have "0 \<le> length (e # es)
      \<and> ibuf_apply_all ap (take 0 (e # es)) page = Some page
      \<and> (0 < length (e # es) \<longrightarrow> ibuf_apply_entry ap ((e # es) ! 0) page = None)
      \<and> ibuf_merge_entries ap (e # es) page tree
          = (if 0 = length (e # es) then DB_SUCCESS else DB_CORRUPTION, page,
             fold remove1 (take 0 (e # es)) tree)"
      by simp
    then show ?thesis by blast
  next
    case (Some page')
    from Cons.IH [of page' "remove1 e tree"] obtain n pg where
      n: "n \<le> length es"
      and a: "ibuf_apply_all ap (take n es) page' = Some pg"
      and f: "n < length es \<longrightarrow> ibuf_apply_entry ap (es ! n) pg = None"
      and r: "ibuf_merge_entries ap es page' (remove1 e tree)
          = (if n = length es then DB_SUCCESS else DB_CORRUPTION, pg,
             fold remove1 (take n es) (remove1 e tree))"
      by blast
    from n a f r Some have "Suc n \<le> length (e # es)
      \<and> ibuf_apply_all ap (take (Suc n) (e # es)) page = Some pg
      \<and> (Suc n < length (e # es) \<longrightarrow> ibuf_apply_entry ap ((e # es) ! Suc n) pg = None)
      \<and> ibuf_merge_entries ap (e # es) page tree
          = (if Suc n = length (e # es) then DB_SUCCESS else DB_CORRUPTION, pg,
             fold remove1 (take (Suc n) (e # es)) tree)"
      by simp
    then show ?thesis by blast
  qed
qed

lemma ibuf_page_entries_unique:
  assumes "distinct (map rec_counter (filter (\<lambda>e. rec_page_id e = pid) tree))"
    and "mset tree2 = mset tree"
    and "mset es = mset (filter (\<lambda>e. rec_page_id e = pid) tree)"
    and "sorted (map rec_counter es)"
  shows "ibuf_page_entries pid tree2 = es"
  unfolding ibuf_page_entries_def
proof (rule sort_key_inj_key_eq)
  have "mset (filter (\<lambda>e. rec_page_id e = pid) tree2)
      = mset (filter (\<lambda>e. rec_page_id e = pid) tree)"
    using assms(2) by (simp only: mset_filter)
  then show m: "mset (filter (\<lambda>e. rec_page_id e = pid) tree2) = mset es"
    using assms(3) by simp
  from assms(1) have "inj_on rec_counter (set (filter (\<lambda>e. rec_page_id e = pid) tree))"
    by (simp add: distinct_map)
  moreover have "set (filter (\<lambda>e. rec_page_id e = pid) tree2)
      = set (filter (\<lambda>e. rec_page_id e = pid) tree)"
    using m assms(3) by (metis mset_eq_setD)
  ultimately show "inj_on rec_counter (set (filter (\<lambda>e. rec_page_id e = pid) tree2))"
    by simp
  show "sorted (map rec_counter es)"
    by (rule assms(4))
qed

lemma fold_remove1_filter:
  "mset es = mset (filter P tree) \<Longrightarrow> fold remove1 es tree = filter (\<lambda>e. \<not> P e) tree"
proof (induction es arbitrary: tree)
  case Nil
  then have "filter P tree = []" by simp
  then have "\<forall>e \<in> set tree. \<not> P e" by (simp add: filter_empty_conv)
  then show ?case by simp
next
  case (Cons e es)
  from Cons.prems have "e \<in># mset (filter P tree)"
    by (metis list.set_intros(1) set_mset_mset)
  then have e: "P e" "e \<in> set tree"
    by simp_all
  from Cons.prems have "mset es = mset (filter P (remove1 e tree))"
    by (simp add: filter_remove1) (metis add_mset_remove_trivial mset_remove1)
  from Cons.IH [OF this] have "fold remove1 es (remove1 e tree) = filter (\<lambda>e. \<not> P e) (remove1 e tree)" .
  also have "\<dots> = remove1 e (filter (\<lambda>e. \<not> P e) tree)"
    by (simp only: filter_remove1)
  also have "\<dots> = filter (\<lambda>e. \<not> P e) tree"
    using e(1) by (intro remove1_idem) simp
  finally show ?case by simp
qed

lemma ibuf_apply_all_append:
  "ibuf_apply_all ap (xs @ ys) page =
     (case ibuf_apply_all ap xs page of None \<Rightarrow> None | Some pg \<Rightarrow> ibuf_apply_all ap ys pg)"
  by (induction xs arbitrary: page) (simp_all split: option.splits)

lemma ibuf_apply_all_stops:
  assumes "n < length es"
    and "ibuf_apply_all ap (take n es) page = Some pg"
    and "ibuf_apply_entry ap (es ! n) pg = None"
  shows "ibuf_apply_all ap es page = None"
proof -
  have "es = take n es @ es ! n # drop (Suc n) es"
    using assms(1) by (rule id_take_nth_drop)
  then have "ibuf_apply_all ap es page
      = ibuf_apply_all ap (take n es @ es ! n # drop (Suc n) es) page"
    by simp
  also have "\<dots> = None"
    using assms(2,3) by (simp only: ibuf_apply_all_append) simp
  finally show ?thesis .
qed

lemma ibuf_merge_entries_corruption_keeps:
  "ibuf_page_entries pid tree = es \<Longrightarrow>
   ibuf_merge_entries ap es page tree = (DB_CORRUPTION, pg, tree') \<Longrightarrow>
     \<exists>e es'. ibuf_page_entries pid tree' = e # es' \<and> ibuf_apply_entry ap e pg = None"
proof (induction es arbitrary: page tree)
  case Nil
  then show ?case by simp
next
  case (Cons e es)
  show ?case
  proof (cases "ibuf_apply_entry ap e page")
    case None
    with Cons.prems show ?thesis by auto
  next
    case (Some page')
    with Cons.prems(2) have r:
      "ibuf_merge_entries ap es page' (remove1 e tree) = (DB_CORRUPTION, pg, tree')"
      by simp
    from Cons.prems(1) have "ibuf_page_entries pid (remove1 e tree) = es"
      by (rule ibuf_page_entries_remove1)
    from Cons.IH [OF this r] show ?thesis .
  qed
qed

text \<open>
  C2, as the model has it. Let the entries buffered for a page carry distinct ordering
  counters, and let \<open>es\<close> be those entries in ascending counter order. Whatever the
  physical order of the buffer's index (\<open>tree2\<close> is any rearrangement of \<open>tree\<close>), the
  merge into a resident page applies the entries of \<open>es\<close> from the front, in that order,
  up to the first one that cannot be applied, and it has removed from the index exactly
  the entries it applied. It applies all of \<open>es\<close> exactly when every entry can be applied
  in that order: then the call succeeds and the index has lost every entry of the page
  and no other. Otherwise the call reports corruption, and the entry that failed and the
  ones after it are neither applied nor removed.
\<close>

theorem ibuf_merge_counter_order:
  assumes "distinct (map rec_counter (filter (\<lambda>e. rec_page_id e = page_id) tree))"
    and "mset tree2 = mset tree"
    and "mset es = mset (filter (\<lambda>e. rec_page_id e = page_id) tree)"
    and "sorted (map rec_counter es)"
  shows "\<exists>n pg. n \<le> length es
      \<and> ibuf_apply_all ap (take n es) page = Some pg
      \<and> (n < length es \<longrightarrow> ibuf_apply_entry ap (es ! n) pg = None)
      \<and> ibuf_merge_or_delete_for_page ap (Some page) page_id zip_size tree2
          = (if n = length es then DB_SUCCESS else DB_CORRUPTION, Some pg,
             fold remove1 (take n es) tree2)
      \<and> (n = length es \<longrightarrow>
           fold remove1 (take n es) tree2 = filter (\<lambda>e. rec_page_id e \<noteq> page_id) tree2)
      \<and> (n = length es) = (ibuf_apply_all ap es page \<noteq> None)"
proof -
  have es: "ibuf_page_entries page_id tree2 = es"
    using assms by (rule ibuf_page_entries_unique)
  have "mset es = mset (filter (\<lambda>e. rec_page_id e = page_id) tree2)"
    using assms(2,3) by (simp only: mset_filter)
  then have all: "fold remove1 es tree2 = filter (\<lambda>e. rec_page_id e \<noteq> page_id) tree2"
    by (rule fold_remove1_filter)
  from ibuf_merge_entries_prefix [of es ap page tree2] obtain n pg where
    n: "n \<le> length es"
    and a: "ibuf_apply_all ap (take n es) page = Some pg"
    and f: "n < length es \<longrightarrow> ibuf_apply_entry ap (es ! n) pg = None"
    and r: "ibuf_merge_entries ap es page tree2
        = (if n = length es then DB_SUCCESS else DB_CORRUPTION, pg,
           fold remove1 (take n es) tree2)"
    by blast
  from r es have "ibuf_merge_or_delete_for_page ap (Some page) page_id zip_size tree2
      = (if n = length es then DB_SUCCESS else DB_CORRUPTION, Some pg,
         fold remove1 (take n es) tree2)"
    by (simp add: ibuf_merge_or_delete_for_page_def)
  moreover have "n = length es \<longrightarrow>
      fold remove1 (take n es) tree2 = filter (\<lambda>e. rec_page_id e \<noteq> page_id) tree2"
    using all by simp
  moreover have "(n = length es) = (ibuf_apply_all ap es page \<noteq> None)"
  proof (cases "n = length es")
    case True
    with a show ?thesis by simp
  next
    case False
    with n have "n < length es" by simp
    with a f have "ibuf_apply_all ap es page = None"
      by (simp add: ibuf_apply_all_stops)
    with False show ?thesis by simp
  qed
  ultimately show ?thesis
    using n a f by blast
qed

theorem ibuf_merge_counter_order_witness:
  "ibuf_merge_or_delete_for_page log_apply (Some []) page_7_42 0
      [entry_3, entry_1, entry_other, entry_2]
    = (DB_SUCCESS,
       Some [(IBUF_OP_INSERT, 10), (IBUF_OP_DELETE_MARK, 20), (IBUF_OP_DELETE, 30)],
       [entry_other])"
proof -
  have d: "distinct (map rec_counter (filter (\<lambda>e. rec_page_id e = page_7_42)
      [entry_1, entry_2, entry_other, entry_3]))"
    by simp
  have p: "mset [entry_3, entry_1, entry_other, entry_2]
      = mset [entry_1, entry_2, entry_other, entry_3]"
    by simp
  have m: "mset [entry_1, entry_2, entry_3]
      = mset (filter (\<lambda>e. rec_page_id e = page_7_42) [entry_1, entry_2, entry_other, entry_3])"
    by simp
  have s: "sorted (map rec_counter [entry_1, entry_2, entry_3])"
    by simp
  from ibuf_merge_counter_order [OF d p m s, of log_apply "[]" 0] obtain n pg where
    n: "n \<le> length [entry_1, entry_2, entry_3]"
    and a: "ibuf_apply_all log_apply (take n [entry_1, entry_2, entry_3]) [] = Some pg"
    and f: "n < length [entry_1, entry_2, entry_3] \<longrightarrow>
        ibuf_apply_entry log_apply ([entry_1, entry_2, entry_3] ! n) pg = None"
    and r: "ibuf_merge_or_delete_for_page log_apply (Some []) page_7_42 0
          [entry_3, entry_1, entry_other, entry_2]
        = (if n = length [entry_1, entry_2, entry_3] then DB_SUCCESS else DB_CORRUPTION,
           Some pg,
           fold remove1 (take n [entry_1, entry_2, entry_3])
             [entry_3, entry_1, entry_other, entry_2])"
    by blast
  have "n = 3"
  proof (rule ccontr)
    assume "n \<noteq> 3"
    with n have "n = 0 \<or> n = 1 \<or> n = 2" by simp arith
    with f show False
      by (auto simp add: ibuf_apply_entry_def ibuf_op_decode_def log_apply_def)
  qed
  with a r show ?thesis
    by (simp add: ibuf_apply_entry_def ibuf_op_decode_def log_apply_def)
qed

text \<open>
  The claim C2 as it is written fails when an entry cannot be applied: of three entries
  with the distinct counters 3, 2, 1 the merge applies the one with counter 1, reports
  corruption at the one with counter 2, and never applies the one with counter 3.
\<close>

theorem ibuf_merge_stops_at_failed_entry:
  "distinct (map rec_counter (filter (\<lambda>e. rec_page_id e = page_7_42)
      [entry_3, entry_bad, entry_1]))
   \<and> ibuf_merge_or_delete_for_page log_apply (Some []) page_7_42 0
      [entry_3, entry_bad, entry_1]
     = (DB_CORRUPTION, Some [(IBUF_OP_INSERT, 10)], [entry_3, entry_bad])"
  by (simp add: ibuf_merge_or_delete_for_page_def ibuf_page_entries_def
      ibuf_apply_entry_def ibuf_op_decode_def log_apply_def word_le_nat_alt)

text \<open>
  C3, as the model has it. A second call of \<^verbatim>\<open>ibuf_merge_or_delete_for_page\<close> on the
  page and the index that a first call left returns what the first call returned: the
  same error code, the same page contents, the same index. When the first call succeeded
  (with a page or without one), the index it leaves holds no entry for the page, so the
  second call finds none. When the first call reported corruption, the index it leaves
  still holds entries for the page, and the first of them in counter order is one that
  cannot be applied to the page as the first call left it: the second call finds it
  again.
\<close>

theorem ibuf_merge_twice:
  "case ibuf_merge_or_delete_for_page ap block page_id zip_size tree of
     (err, block', tree') \<Rightarrow>
        ibuf_merge_or_delete_for_page ap block' page_id zip_size tree' = (err, block', tree')
        \<and> (err = DB_SUCCESS \<longrightarrow> \<not> ibuf_page_exists page_id zip_size tree')
        \<and> (err = DB_CORRUPTION \<longrightarrow>
             ibuf_page_exists page_id zip_size tree'
             \<and> (\<exists>pg e es. block' = Some pg
                   \<and> ibuf_page_entries page_id tree' = e # es
                   \<and> ibuf_apply_entry ap e pg = None))"
proof (cases block)
  case None
  then show ?thesis
    by (simp add: ibuf_merge_or_delete_for_page_def ibuf_page_exists_def)
next
  case (Some page)
  obtain err pg tree' where
    r: "ibuf_merge_entries ap (ibuf_page_entries page_id tree) page tree = (err, pg, tree')"
    by (metis prod_cases3)
  have k: "err = DB_CORRUPTION \<longrightarrow>
      ibuf_page_exists page_id zip_size tree'
      \<and> (\<exists>e es. ibuf_page_entries page_id tree' = e # es \<and> ibuf_apply_entry ap e pg = None)"
  proof
    assume "err = DB_CORRUPTION"
    with r have "ibuf_merge_entries ap (ibuf_page_entries page_id tree) page tree
        = (DB_CORRUPTION, pg, tree')"
      by simp
    from ibuf_merge_entries_corruption_keeps [OF refl this] obtain e es where
      e: "ibuf_page_entries page_id tree' = e # es" "ibuf_apply_entry ap e pg = None"
      by blast
    then have "ibuf_page_entries page_id tree' \<noteq> []"
      by simp
    then have "ibuf_page_exists page_id zip_size tree'"
      by (simp add: ibuf_page_exists_def page_entries_Nil_iff)
    with e show "ibuf_page_exists page_id zip_size tree'
      \<and> (\<exists>e es. ibuf_page_entries page_id tree' = e # es \<and> ibuf_apply_entry ap e pg = None)"
      by blast
  qed
  from ibuf_merge_entries_idem [OF refl r] Some r k show ?thesis
    by (simp add: ibuf_merge_or_delete_for_page_def ibuf_page_exists_def page_entries_Nil_iff)
qed

theorem ibuf_merge_twice_witness:
  "ibuf_merge_or_delete_for_page log_apply
      (Some [(IBUF_OP_INSERT, 10), (IBUF_OP_DELETE_MARK, 20), (IBUF_OP_DELETE, 30)])
      page_7_42 0 [entry_other]
    = (DB_SUCCESS,
       Some [(IBUF_OP_INSERT, 10), (IBUF_OP_DELETE_MARK, 20), (IBUF_OP_DELETE, 30)],
       [entry_other])
   \<and> \<not> ibuf_page_exists page_7_42 0 [entry_other]
   \<and> ibuf_merge_or_delete_for_page log_apply (Some [(IBUF_OP_INSERT, 10)]) page_7_42 0
      [entry_bad, entry_3]
    = (DB_CORRUPTION, Some [(IBUF_OP_INSERT, 10)], [entry_bad, entry_3])
   \<and> ibuf_page_exists page_7_42 0 [entry_bad, entry_3]"
proof -
  have a: "ibuf_merge_or_delete_for_page log_apply (Some []) page_7_42 0
      [entry_3, entry_1, entry_other, entry_2]
    = (DB_SUCCESS,
       Some [(IBUF_OP_INSERT, 10), (IBUF_OP_DELETE_MARK, 20), (IBUF_OP_DELETE, 30)],
       [entry_other])"
    by (simp add: ibuf_merge_or_delete_for_page_def ibuf_page_entries_def
        ibuf_apply_entry_def ibuf_op_decode_def log_apply_def word_le_nat_alt)
  have b: "ibuf_merge_or_delete_for_page log_apply (Some []) page_7_42 0
      [entry_bad, entry_1, entry_3]
    = (DB_CORRUPTION, Some [(IBUF_OP_INSERT, 10)], [entry_bad, entry_3])"
    by (simp add: ibuf_merge_or_delete_for_page_def ibuf_page_entries_def
        ibuf_apply_entry_def ibuf_op_decode_def log_apply_def word_le_nat_alt)
  from a ibuf_merge_twice [where ap = log_apply and block = "Some []" and page_id = page_7_42
      and zip_size = 0 and tree = "[entry_3, entry_1, entry_other, entry_2]"]
  have "ibuf_merge_or_delete_for_page log_apply
      (Some [(IBUF_OP_INSERT, 10), (IBUF_OP_DELETE_MARK, 20), (IBUF_OP_DELETE, 30)])
      page_7_42 0 [entry_other]
    = (DB_SUCCESS,
       Some [(IBUF_OP_INSERT, 10), (IBUF_OP_DELETE_MARK, 20), (IBUF_OP_DELETE, 30)],
       [entry_other])
   \<and> \<not> ibuf_page_exists page_7_42 0 [entry_other]"
    by simp
  moreover from b ibuf_merge_twice [where ap = log_apply and block = "Some []" and page_id = page_7_42
      and zip_size = 0 and tree = "[entry_bad, entry_1, entry_3]"]
  have "ibuf_merge_or_delete_for_page log_apply (Some [(IBUF_OP_INSERT, 10)]) page_7_42 0
      [entry_bad, entry_3]
    = (DB_CORRUPTION, Some [(IBUF_OP_INSERT, 10)], [entry_bad, entry_3])
   \<and> ibuf_page_exists page_7_42 0 [entry_bad, entry_3]"
    by simp
  ultimately show ?thesis
    by simp
qed

text \<open>
  The claim C3 as it is written fails when an entry cannot be applied: the first call
  applies the entry with counter 1, reports corruption at the entry with counter 2 and
  leaves it in the index, where the second call finds it again.
\<close>

theorem ibuf_merge_twice_leaves_failed_entry:
  "ibuf_merge_or_delete_for_page log_apply (Some []) page_7_42 0
      [entry_bad, entry_other, entry_1]
     = (DB_CORRUPTION, Some [(IBUF_OP_INSERT, 10)], [entry_bad, entry_other])
   \<and> ibuf_merge_or_delete_for_page log_apply (Some [(IBUF_OP_INSERT, 10)]) page_7_42 0
      [entry_bad, entry_other]
     = (DB_CORRUPTION, Some [(IBUF_OP_INSERT, 10)], [entry_bad, entry_other])
   \<and> ibuf_page_entries page_7_42 [entry_bad, entry_other] = [entry_bad]
   \<and> ibuf_page_exists page_7_42 0 [entry_bad, entry_other]"
  by (simp add: ibuf_merge_or_delete_for_page_def ibuf_page_entries_def ibuf_page_exists_def
      ibuf_apply_entry_def ibuf_op_decode_def log_apply_def word_le_nat_alt)

end
